theory Spec2Isabelle
  imports Main
begin

section \<open>The repertoire tree of assets/js/acas-repertoire-data.js\<close>

text \<open>
  The JavaScript keeps the tree as objects that point at each other: a node holds its
  parent and its children by reference, and \<open>nodeMap\<close> maps a FEN to a node object.
  Several properties depend on which object a reference denotes, so the model has an explicit
  heap: a list of node cells, a reference being the index of a cell. \<open>new RepertoireNode\<close>
  appends a cell, and assignments to a field update the cell in place.
\<close>

subsection \<open>RepertoireNode\<close>

type_synonym ref = nat

record RepertoireNode =
  fen :: string
  move :: string
  parent :: "ref option"
  children :: "ref list"
  comment :: string
  labels :: "string list"

type_synonym heap = "RepertoireNode list"

text \<open>The constructor: \<open>children = []\<close>, \<open>comment = ""\<close>, \<open>labels = []\<close>.\<close>

definition new_RepertoireNode :: "string \<Rightarrow> string \<Rightarrow> ref option \<Rightarrow> RepertoireNode" where
  "new_RepertoireNode f m p =
     \<lparr>fen = f, move = m, parent = p, children = [], comment = [], labels = []\<rparr>"

text \<open>\<open>addChild(childNode)\<close>: \<open>this.children.push(childNode)\<close>.\<close>

definition addChild :: "heap \<Rightarrow> ref \<Rightarrow> ref \<Rightarrow> heap" where
  "addChild h this childNode = h[this := (h ! this)\<lparr>children := children (h ! this) @ [childNode]\<rparr>]"

text \<open>\<open>findChildByMove(move)\<close>: \<open>this.children.find(child => child.move === move)\<close>.\<close>

definition findChildByMove :: "heap \<Rightarrow> ref \<Rightarrow> string \<Rightarrow> ref option" where
  "findChildByMove h this m = find (\<lambda>child. move (h ! child) = m) (children (h ! this))"

subsection \<open>RepertoireTree\<close>

record RepertoireTree =
  heap :: heap
  root :: ref
  nodeMap :: "string \<rightharpoonup> ref"

text \<open>What the functions write to the console.\<close>

datatype console = console_error string | console_warn string

text \<open>The constructor allocates the root in a heap of its own.\<close>

definition new_RepertoireTree :: "string \<Rightarrow> RepertoireTree" where
  "new_RepertoireTree rootFen =
     \<lparr>heap = [new_RepertoireNode rootFen ''root'' None], root = 0,
      nodeMap = Map.empty(rootFen \<mapsto> 0)\<rparr>"

text \<open>
  \<open>addMove(parentFen, newFen, move)\<close> returns the node (\<open>None\<close> for \<open>null\<close>), what it
  wrote to the console, and the tree after the call.
\<close>

definition addMove ::
  "RepertoireTree \<Rightarrow> string \<Rightarrow> string \<Rightarrow> string \<Rightarrow> ref option \<times> console list \<times> RepertoireTree" where
  "addMove t parentFen newFen mv =
     (case nodeMap t parentFen of
        None \<Rightarrow>
          (None, [console_error (''Parent FEN '' @ parentFen @ '' not found in repertoire tree.'')], t)
      | Some parentNode \<Rightarrow>
          (case findChildByMove (heap t) parentNode mv of
             Some existingNode \<Rightarrow>
               (Some existingNode,
                (if fen (heap t ! existingNode) \<noteq> newFen
                 then [console_warn (''Move '' @ mv @ '' from '' @ parentFen
                         @ '' already exists but leads to '' @ fen (heap t ! existingNode)
                         @ '', not '' @ newFen @ ''. Using existing node.'')]
                 else []),
                t)
           | None \<Rightarrow>
               (let out = (case nodeMap t newFen of
                             None \<Rightarrow> []
                           | Some n \<Rightarrow>
                               if parent (heap t ! n) \<noteq> Some parentNode
                               then [console_warn (''FEN '' @ newFen
                                      @ '' already exists in the tree from a different line. Creating a new node for this path.'')]
                               else []);
                    newNode = length (heap t);
                    h1 = heap t @ [new_RepertoireNode newFen mv (Some parentNode)];
                    h2 = addChild h1 parentNode newNode
                in (Some newNode, out, t\<lparr>heap := h2, nodeMap := (nodeMap t)(newFen \<mapsto> newNode)\<rparr>))))"

text \<open>\<open>findNodeByFen(fen)\<close>: \<open>this.nodeMap.get(fen)\<close>.\<close>

definition findNodeByFen :: "RepertoireTree \<Rightarrow> string \<Rightarrow> ref option" where
  "findNodeByFen t f = nodeMap t f"

text \<open>
  \<open>findNodeByMoves(movesSequence)\<close>: the loop over the moves, from \<open>currentNode\<close>.
\<close>

fun walk :: "heap \<Rightarrow> ref \<Rightarrow> string list \<Rightarrow> ref option" where
  "walk h currentNode [] = Some currentNode"
| "walk h currentNode (m # ms) =
     (case findChildByMove h currentNode m of
        None \<Rightarrow> None
      | Some nextNode \<Rightarrow> walk h nextNode ms)"

definition findNodeByMoves :: "RepertoireTree \<Rightarrow> string list \<Rightarrow> ref option" where
  "findNodeByMoves t movesSequence = walk (heap t) (root t) movesSequence"

text \<open>A sequence of \<open>addMove(parentFen, newFen, move)\<close> calls, the results dropped.\<close>

fun addMoves :: "RepertoireTree \<Rightarrow> (string \<times> string \<times> string) list \<Rightarrow> RepertoireTree" where
  "addMoves t [] = t"
| "addMoves t ((parentFen, newFen, mv) # calls) =
     addMoves (snd (snd (addMove t parentFen newFen mv))) calls"

subsection \<open>Well-formed heaps\<close>

text \<open>
  A JavaScript reference always denotes an object. In the model this is a property of
  the tree: the root, the entries of \<open>nodeMap\<close> and the children of every node are
  indices of cells of the heap.
\<close>

definition wf_tree :: "RepertoireTree \<Rightarrow> bool" where
  "wf_tree t \<longleftrightarrow>
     root t < length (heap t) \<and>
     (\<forall>k n. nodeMap t k = Some n \<longrightarrow> n < length (heap t)) \<and>
     list_all (\<lambda>nd. list_all (\<lambda>c. c < length (heap t)) (children nd)) (heap t)"

text \<open>No node has two children with the same move.\<close>

definition siblings_unique :: "heap \<Rightarrow> bool" where
  "siblings_unique h = list_all (\<lambda>nd. distinct (map (\<lambda>c. move (h ! c)) (children nd))) h"

section \<open>JSON text\<close>

text \<open>
  \<open>serialize\<close> ends with \<open>JSON.stringify\<close> and \<open>deserialize\<close> starts with \<open>JSON.parse\<close>.
  Both are modelled on texts of type \<open>string\<close>: a character of the text is a code unit
  below 256. A parsed string is a list of code units, since an escape \<open>\uXXXX\<close> can denote
  any of them; a number literal is kept as it is written.
\<close>

datatype json =
    JNull
  | JBool bool
  | JNum string
  | JStr "nat list"
  | JArr "json list"
  | JObj "(nat list \<times> json) list"

definition is_ws :: "char \<Rightarrow> bool" where
  "is_ws c \<longleftrightarrow> c = CHR '' '' \<or> c = CHR 0x09 \<or> c = CHR 0x0A \<or> c = CHR 0x0D"

definition skip_ws :: "string \<Rightarrow> string" where
  "skip_ws s = dropWhile is_ws s"

definition is_digit :: "char \<Rightarrow> bool" where
  "is_digit c \<longleftrightarrow> (48::nat) \<le> of_char c \<and> of_char c \<le> (57::nat)"

definition hex_val :: "char \<Rightarrow> nat option" where
  "hex_val c =
     (let n = of_char c :: nat in
      if 48 \<le> n \<and> n \<le> 57 then Some (n - 48)
      else if 97 \<le> n \<and> n \<le> 102 then Some (n - 87)
      else if 65 \<le> n \<and> n \<le> 70 then Some (n - 55)
      else None)"

text \<open>What a backslash and the character \<open>e\<close> after it denote (\<open>\u\<close> apart).\<close>

definition unescape :: "char \<Rightarrow> nat option" where
  "unescape e =
     (if e = CHR 0x22 then Some 34
      else if e = CHR 0x5C then Some 92
      else if e = CHR ''/'' then Some 47
      else if e = CHR ''b'' then Some 8
      else if e = CHR ''f'' then Some 12
      else if e = CHR ''n'' then Some 10
      else if e = CHR ''r'' then Some 13
      else if e = CHR ''t'' then Some 9
      else None)"

text \<open>The characters of a string after its opening quote, up to the closing quote.\<close>

fun parse_chars :: "string \<Rightarrow> (nat list \<times> string) option" where
  "parse_chars [] = None"
| "parse_chars (c # cs) =
     (if c = CHR 0x22 then Some ([], cs)
      else if c = CHR 0x5C then
        (case cs of
           [] \<Rightarrow> None
         | e # r \<Rightarrow>
             if e = CHR ''u'' then
               (case r of
                  a # b # c # d # r' \<Rightarrow>
                    (case (hex_val a, hex_val b, hex_val c, hex_val d) of
                       (Some x3, Some x2, Some x1, Some x0) \<Rightarrow>
                         map_option (\<lambda>(u, s). ((x3 * 4096 + x2 * 256 + x1 * 16 + x0) # u, s))
                           (parse_chars r')
                     | _ \<Rightarrow> None)
                | _ \<Rightarrow> None)
             else
               (case unescape e of
                  None \<Rightarrow> None
                | Some x \<Rightarrow> map_option (\<lambda>(u, s). (x # u, s)) (parse_chars r)))
      else if (of_char c :: nat) < 32 then None
      else map_option (\<lambda>(u, s). (of_char c # u, s)) (parse_chars cs))"

text \<open>A number literal: sign, integer part without leading zero, fraction, exponent.\<close>

definition parse_digits :: "string \<Rightarrow> (string \<times> string) option" where
  "parse_digits s =
     (if takeWhile is_digit s = [] then None
      else Some (takeWhile is_digit s, dropWhile is_digit s))"

definition parse_number :: "string \<Rightarrow> (string \<times> string) option" where
  "parse_number s =
     (let (sign, s1) = (case s of
                          c # r \<Rightarrow> if c = CHR ''-'' then ([c], r) else ([], s)
                        | [] \<Rightarrow> ([], s))
      in case parse_digits s1 of
           None \<Rightarrow> None
         | Some (ds, s2) \<Rightarrow>
             if hd ds = CHR ''0'' \<and> 1 < length ds then None
             else
               (case (case s2 of
                        c # r \<Rightarrow>
                          if c = CHR ''.''
                          then map_option (\<lambda>(fs, s3). (c # fs, s3)) (parse_digits r)
                          else Some ([], s2)
                      | [] \<Rightarrow> Some ([], s2)) of
                  None \<Rightarrow> None
                | Some (frac, s3) \<Rightarrow>
                    (case (case s3 of
                             c # r \<Rightarrow>
                               if c = CHR ''e'' \<or> c = CHR ''E''
                               then (let (esign, r1) =
                                       (case r of
                                          d # r' \<Rightarrow>
                                            if d = CHR ''+'' \<or> d = CHR ''-'' then ([d], r')
                                            else ([], r)
                                        | [] \<Rightarrow> ([], r))
                                     in map_option (\<lambda>(es, s4). (c # esign @ es, s4))
                                          (parse_digits r1))
                               else Some ([], s3)
                           | [] \<Rightarrow> Some ([], s3)) of
                       None \<Rightarrow> None
                     | Some (ex, s4) \<Rightarrow> Some (sign @ ds @ frac @ ex, s4))))"

fun strip_prefix :: "string \<Rightarrow> string \<Rightarrow> string option" where
  "strip_prefix [] s = Some s"
| "strip_prefix (p # ps) [] = None"
| "strip_prefix (p # ps) (c # cs) = (if p = c then strip_prefix ps cs else None)"

text \<open>
  Values, the elements of an array after its bracket and the members of an object after
  its brace. The first argument bounds the number of nested calls; \<open>JSON_parse\<close> starts
  with two calls for every character of the text, which is more than a text needs (lemma
  \<open>JSON_parse_fuel\<close> below).
\<close>

fun parse_value :: "nat \<Rightarrow> string \<Rightarrow> (json \<times> string) option"
  and parse_elements :: "nat \<Rightarrow> string \<Rightarrow> (json list \<times> string) option"
  and parse_members :: "nat \<Rightarrow> string \<Rightarrow> ((nat list \<times> json) list \<times> string) option" where
  "parse_value 0 s = None"
| "parse_value (Suc n) s =
     (case skip_ws s of
        [] \<Rightarrow> None
      | c # cs \<Rightarrow>
          if c = CHR ''{'' then
            (case skip_ws cs of
               [] \<Rightarrow> None
             | d # r \<Rightarrow>
                 if d = CHR ''}'' then Some (JObj [], r)
                 else map_option (\<lambda>(ms, r'). (JObj ms, r')) (parse_members n (d # r)))
          else if c = CHR ''['' then
            (case skip_ws cs of
               [] \<Rightarrow> None
             | d # r \<Rightarrow>
                 if d = CHR '']'' then Some (JArr [], r)
                 else map_option (\<lambda>(vs, r'). (JArr vs, r')) (parse_elements n (d # r)))
          else if c = CHR 0x22 then map_option (\<lambda>(u, r). (JStr u, r)) (parse_chars cs)
          else if c = CHR ''t'' then map_option (Pair (JBool True)) (strip_prefix ''rue'' cs)
          else if c = CHR ''f'' then map_option (Pair (JBool False)) (strip_prefix ''alse'' cs)
          else if c = CHR ''n'' then map_option (Pair JNull) (strip_prefix ''ull'' cs)
          else map_option (\<lambda>(l, r). (JNum l, r)) (parse_number (c # cs)))"
| "parse_elements 0 s = None"
| "parse_elements (Suc n) s =
     (case parse_value n s of
        None \<Rightarrow> None
      | Some (v, r) \<Rightarrow>
          (case skip_ws r of
             [] \<Rightarrow> None
           | c # r' \<Rightarrow>
               if c = CHR '']'' then Some ([v], r')
               else if c = CHR '','' then
                 map_option (\<lambda>(vs, r''). (v # vs, r'')) (parse_elements n r')
               else None))"
| "parse_members 0 s = None"
| "parse_members (Suc n) s =
     (case skip_ws s of
        [] \<Rightarrow> None
      | q # cs \<Rightarrow>
          if q \<noteq> CHR 0x22 then None
          else
            (case parse_chars cs of
               None \<Rightarrow> None
             | Some (k, r) \<Rightarrow>
                 (case skip_ws r of
                    [] \<Rightarrow> None
                  | c # r1 \<Rightarrow>
                      if c \<noteq> CHR '':'' then None
                      else
                        (case parse_value n r1 of
                           None \<Rightarrow> None
                         | Some (v, r2) \<Rightarrow>
                             (case skip_ws r2 of
                                [] \<Rightarrow> None
                              | e # r3 \<Rightarrow>
                                  if e = CHR ''}'' then Some ([(k, v)], r3)
                                  else if e = CHR '','' then
                                    map_option (\<lambda>(ms, r4). ((k, v) # ms, r4))
                                      (parse_members n r3)
                                  else None)))))"

text \<open>\<open>JSON.parse(text)\<close>; \<open>None\<close> is the SyntaxError it throws.\<close>

definition JSON_parse :: "string \<Rightarrow> json option" where
  "JSON_parse s =
     (case parse_value (2 * length s + 2) s of
        None \<Rightarrow> None
      | Some (v, r) \<Rightarrow> if skip_ws r = [] then Some v else None)"

section \<open>serialize\<close>

text \<open>
  The object \<open>serialize\<close> pushes for a node: its own fields, and the \<open>fen\<close> and \<open>move\<close> of
  its parent (\<open>null\<close>, here \<open>None\<close>, for a node without parent).
\<close>

record NodeData =
  fenD :: string
  moveD :: string
  commentD :: string
  labelsD :: "string list"
  parentFenD :: "string option"
  parentMoveD :: "string option"

definition nodeData :: "heap \<Rightarrow> ref \<Rightarrow> NodeData" where
  "nodeData h node =
     \<lparr>fenD = fen (h ! node), moveD = move (h ! node), commentD = comment (h ! node),
      labelsD = labels (h ! node),
      parentFenD = (case parent (h ! node) of None \<Rightarrow> None | Some p \<Rightarrow> Some (fen (h ! p))),
      parentMoveD = (case parent (h ! node) of None \<Rightarrow> None | Some p \<Rightarrow> Some (move (h ! p)))\<rparr>"

text \<open>The key of \<open>visitedFens\<close>: \<open>node.fen + '_' + node.move\<close>.\<close>

definition visitKey :: "heap \<Rightarrow> ref \<Rightarrow> string" where
  "visitKey h node = fen (h ! node) @ ''_'' @ move (h ! node)"

text \<open>
  The \<open>while (queue.length > 0)\<close> loop of \<open>serialize\<close>, with its three variables. The
  queue holds references; a reference that is no cell of the heap does not occur in a
  well-formed tree, and the loop drops it. Every other step either shortens the queue or
  adds the key of a cell to \<open>visitedFens\<close>, so the loop ends.
\<close>

function serialize_loop :: "heap \<Rightarrow> ref list \<Rightarrow> string set \<Rightarrow> NodeData list \<Rightarrow> NodeData list" where
  "serialize_loop h [] visitedFens simplifiedNodes = simplifiedNodes"
| "serialize_loop h (node # queue) visitedFens simplifiedNodes =
     (if node < length h then
        (if visitKey h node \<in> visitedFens then serialize_loop h queue visitedFens simplifiedNodes
         else serialize_loop h (queue @ children (h ! node)) (insert (visitKey h node) visitedFens)
                (simplifiedNodes @ [nodeData h node]))
      else serialize_loop h queue visitedFens simplifiedNodes)"
  by pat_completeness auto
termination
proof (relation "measures [\<lambda>(h, q, v, out). card (visitKey h ` {..<length h} - v),
                           \<lambda>(h, q, v, out). length q]")
  show "wf (measures [\<lambda>(h, q, v, out). card (visitKey h ` {..<length h} - v),
                      \<lambda>(h, q, v, out). length q])"
    by simp
next
  fix h :: heap and node queue and visitedFens :: "string set" and simplifiedNodes :: "NodeData list"
  assume "node < length h" "visitKey h node \<in> visitedFens"
  then show "((h, queue, visitedFens, simplifiedNodes), (h, node # queue, visitedFens, simplifiedNodes))
      \<in> measures [\<lambda>(h, q, v, out). card (visitKey h ` {..<length h} - v),
                   \<lambda>(h, q, v, out). length q]"
    by simp
next
  fix h :: heap and node queue and visitedFens :: "string set" and simplifiedNodes :: "NodeData list"
  assume n: "node < length h" and v: "visitKey h node \<notin> visitedFens"
  have "visitKey h ` {..<length h} - insert (visitKey h node) visitedFens
        \<subset> visitKey h ` {..<length h} - visitedFens"
    using n v by auto
  then have "card (visitKey h ` {..<length h} - insert (visitKey h node) visitedFens)
        < card (visitKey h ` {..<length h} - visitedFens)"
    by (intro psubset_card_mono) simp_all
  then show "((h, queue @ children (h ! node), insert (visitKey h node) visitedFens,
               simplifiedNodes @ [nodeData h node]),
              (h, node # queue, visitedFens, simplifiedNodes))
      \<in> measures [\<lambda>(h, q, v, out). card (visitKey h ` {..<length h} - v),
                   \<lambda>(h, q, v, out). length q]"
    by simp
next
  fix h :: heap and node queue and visitedFens :: "string set" and simplifiedNodes :: "NodeData list"
  assume "\<not> node < length h"
  then show "((h, queue, visitedFens, simplifiedNodes), (h, node # queue, visitedFens, simplifiedNodes))
      \<in> measures [\<lambda>(h, q, v, out). card (visitKey h ` {..<length h} - v),
                   \<lambda>(h, q, v, out). length q]"
    by simp
qed

text \<open>The array \<open>simplifiedNodes\<close> that \<open>serialize\<close> hands to \<open>JSON.stringify\<close>.\<close>

definition serializeNodes :: "RepertoireTree \<Rightarrow> NodeData list" where
  "serializeNodes t = serialize_loop (heap t) [root t] {} []"

subsection \<open>JSON.stringify on the array of node objects\<close>

definition hex_digit :: "nat \<Rightarrow> char" where
  "hex_digit n = ''0123456789abcdef'' ! n"

text \<open>A character inside a string literal, as \<open>JSON.stringify\<close> quotes it.\<close>

definition quote_char :: "char \<Rightarrow> string" where
  "quote_char c =
     (if c = CHR 0x22 then [CHR 0x5C, CHR 0x22]
      else if c = CHR 0x5C then [CHR 0x5C, CHR 0x5C]
      else if c = CHR 0x08 then [CHR 0x5C, CHR ''b'']
      else if c = CHR 0x0C then [CHR 0x5C, CHR ''f'']
      else if c = CHR 0x0A then [CHR 0x5C, CHR ''n'']
      else if c = CHR 0x0D then [CHR 0x5C, CHR ''r'']
      else if c = CHR 0x09 then [CHR 0x5C, CHR ''t'']
      else if (of_char c :: nat) < 32
        then [CHR 0x5C, CHR ''u'', CHR ''0'', CHR ''0'',
              hex_digit (of_char c div 16), hex_digit (of_char c mod 16)]
      else [c])"

definition quote :: "string \<Rightarrow> string" where
  "quote s = [CHR 0x22] @ concat (map quote_char s) @ [CHR 0x22]"

fun commas :: "string list \<Rightarrow> string" where
  "commas [] = []"
| "commas [x] = x"
| "commas (x # y # xs) = x @ '','' @ commas (y # xs)"

definition stringify_option :: "string option \<Rightarrow> string" where
  "stringify_option v = (case v of None \<Rightarrow> ''null'' | Some s \<Rightarrow> quote s)"

definition stringify_node :: "NodeData \<Rightarrow> string" where
  "stringify_node d =
     ''{'' @ quote ''fen'' @ '':'' @ quote (fenD d) @ '','' @
     quote ''move'' @ '':'' @ quote (moveD d) @ '','' @
     quote ''comment'' @ '':'' @ quote (commentD d) @ '','' @
     quote ''labels'' @ '':'' @ ''['' @ commas (map quote (labelsD d)) @ '']'' @ '','' @
     quote ''parentFen'' @ '':'' @ stringify_option (parentFenD d) @ '','' @
     quote ''parentMove'' @ '':'' @ stringify_option (parentMoveD d) @ ''}''"

definition JSON_stringify :: "NodeData list \<Rightarrow> string" where
  "JSON_stringify ds = ''['' @ commas (map stringify_node ds) @ '']''"

text \<open>\<open>serialize()\<close>.\<close>

definition serialize :: "RepertoireTree \<Rightarrow> string" where
  "serialize t = JSON_stringify (serializeNodes t)"

section \<open>deserialize\<close>

subsection \<open>From the parsed value to the array of node objects\<close>

text \<open>
  \<open>deserialize\<close> is untyped code on whatever \<open>JSON.parse\<close> returns. The model follows it
  on the values \<open>serialize\<close> writes: an array of objects whose \<open>fen\<close>, \<open>move\<close> and \<open>comment\<close>
  are strings, whose \<open>labels\<close> is an array of strings and whose \<open>parentFen\<close> and
  \<open>parentMove\<close> are strings or \<open>null\<close>. Reading a property takes the last member of that
  name, as \<open>JSON.parse\<close> builds the object; other members are ignored.
\<close>

definition getprop :: "(nat list \<times> json) list \<Rightarrow> string \<Rightarrow> json option" where
  "getprop ms key = map_of (rev ms) (map of_char key)"

definition to_string :: "nat list \<Rightarrow> string option" where
  "to_string u = (if list_all (\<lambda>x. x < 256) u then Some (map char_of u) else None)"

definition as_string :: "json option \<Rightarrow> string option" where
  "as_string v = (case v of Some (JStr u) \<Rightarrow> to_string u | _ \<Rightarrow> None)"

definition as_nullable :: "json option \<Rightarrow> string option option" where
  "as_nullable v =
     (case v of
        Some JNull \<Rightarrow> Some None
      | Some (JStr u) \<Rightarrow> map_option Some (to_string u)
      | _ \<Rightarrow> None)"

definition as_strings :: "json option \<Rightarrow> string list option" where
  "as_strings v = (case v of Some (JArr vs) \<Rightarrow> those (map (\<lambda>x. as_string (Some x)) vs) | _ \<Rightarrow> None)"

definition decode_node :: "json \<Rightarrow> NodeData option" where
  "decode_node v =
     (case v of
        JObj ms \<Rightarrow>
          (case (as_string (getprop ms ''fen''), as_string (getprop ms ''move''),
                 as_string (getprop ms ''comment''), as_strings (getprop ms ''labels''),
                 as_nullable (getprop ms ''parentFen''),
                 as_nullable (getprop ms ''parentMove'')) of
             (Some f, Some m, Some c, Some l, Some pf, Some pm) \<Rightarrow>
               Some \<lparr>fenD = f, moveD = m, commentD = c, labelsD = l,
                     parentFenD = pf, parentMoveD = pm\<rparr>
           | _ \<Rightarrow> None)
      | _ \<Rightarrow> None)"

subsection \<open>The passes over the array\<close>

text \<open>
  ``Create all nodes and map them'': the callback of the second \<open>forEach\<close>. (The first
  \<open>forEach\<close> fills \<open>nodeLookup\<close>, which is never read.) On strings \<open>data.comment || ""\<close> is
  \<open>data.comment\<close>, and on arrays \<open>data.labels || []\<close> is \<open>data.labels\<close>.
\<close>

definition createNode :: "RepertoireTree \<Rightarrow> NodeData \<Rightarrow> RepertoireTree" where
  "createNode tree data =
     (if fenD data = fen (heap tree ! root tree) \<and> moveD data = ''root''
      then tree\<lparr>nodeMap := (nodeMap tree)(fenD data \<mapsto> root tree)\<rparr>
      else if nodeMap tree (fenD data) = None
      then tree\<lparr>heap := heap tree @ [(new_RepertoireNode (fenD data) (moveD data) None)
                                         \<lparr>comment := commentD data, labels := labelsD data\<rparr>],
                  nodeMap := (nodeMap tree)(fenD data \<mapsto> length (heap tree))\<rparr>
      else tree)"

text \<open>``Link children to parents'': the callback of the third \<open>forEach\<close>.\<close>

definition linkChild :: "RepertoireTree \<Rightarrow> NodeData \<Rightarrow> RepertoireTree" where
  "linkChild tree data =
     (case parentFenD data of
        None \<Rightarrow> tree
      | Some pf \<Rightarrow>
          (case (nodeMap tree (fenD data), nodeMap tree pf) of
             (Some childNode, Some parentNode) \<Rightarrow>
               (let h = heap tree in
                if \<not> list_ex (\<lambda>c. fen (h ! c) = fen (h ! childNode) \<and> move (h ! c) = move (h ! childNode))
                         (children (h ! parentNode))
                then
                  (let h1 = h[childNode := (h ! childNode)\<lparr>parent := Some parentNode\<rparr>];
                       h2 = h1[childNode := (h1 ! childNode)\<lparr>move := moveD data\<rparr>];
                       h3 = addChild h2 parentNode childNode
                   in tree\<lparr>heap := h3\<rparr>)
                else tree)
           | _ \<Rightarrow> tree))"

text \<open>
  The last loop refills \<open>nodeMap\<close> by a walk from the root, without a visited set: it does
  not end when the links of the third pass form a cycle below the root. \<open>None\<close> is the
  loop that runs forever.
\<close>

partial_function (option) rebuildNodeMap ::
  "heap \<Rightarrow> ref list \<Rightarrow> (string \<rightharpoonup> ref) \<Rightarrow> (string \<rightharpoonup> ref) option" where
  "rebuildNodeMap h q m =
     (case q of
        [] \<Rightarrow> Some m
      | n # rest \<Rightarrow> rebuildNodeMap h (rest @ children (h ! n)) (m(fen (h ! n) \<mapsto> n)))"

text \<open>
  The body of \<open>deserialize\<close> on an array of node objects. What it writes to the console
  is left out.
\<close>

definition deserializeNodes :: "NodeData list \<Rightarrow> string \<Rightarrow> RepertoireTree option" where
  "deserializeNodes simplifiedNodes initialRootFen =
     (case find (\<lambda>n. moveD n = ''root'' \<and> fenD n = initialRootFen) simplifiedNodes of
        None \<Rightarrow> Some (new_RepertoireTree initialRootFen)
      | Some rootData \<Rightarrow>
          (let tree0 = new_RepertoireTree (fenD rootData);
               tree1 = tree0\<lparr>heap := (heap tree0)[root tree0 :=
                          (heap tree0 ! root tree0)\<lparr>comment := commentD rootData,
                                                      labels := labelsD rootData\<rparr>]\<rparr>;
               tree2 = foldl createNode tree1 simplifiedNodes;
               tree3 = foldl linkChild tree2 simplifiedNodes
           in map_option (\<lambda>m. tree3\<lparr>nodeMap := m\<rparr>)
                (rebuildNodeMap (heap tree3) [root tree3] Map.empty)))"

subsection \<open>deserialize and loadFromLocalStorage\<close>

datatype exn = SyntaxError | TypeError

text \<open>
  What a call does: it returns a tree, or it throws, or the parsed value is outside the
  values the model follows (\<open>Untyped\<close>: a number, an object with a numeric \<open>length\<close>, an
  array with an element that is no node object).
\<close>

datatype outcome = Returned RepertoireTree | Thrown exn | Untyped

text \<open>
  \<open>deserialize(jsonString, initialRootFen)\<close>. \<open>JSON.parse\<close> is not inside a \<open>try\<close>. The test
  \<open>!simplifiedNodes || simplifiedNodes.length === 0\<close> holds for \<open>null\<close>, \<open>false\<close>, the empty
  string and the empty array; \<open>true\<close>, a non-empty string and an object without numeric
  \<open>length\<close> pass it and have no method \<open>find\<close>.
\<close>

definition deserialize :: "string \<Rightarrow> string \<Rightarrow> outcome option" where
  "deserialize jsonString initialRootFen =
     (case JSON_parse jsonString of
        None \<Rightarrow> Some (Thrown SyntaxError)
      | Some JNull \<Rightarrow> Some (Returned (new_RepertoireTree initialRootFen))
      | Some (JBool b) \<Rightarrow>
          Some (if b then Thrown TypeError else Returned (new_RepertoireTree initialRootFen))
      | Some (JNum l) \<Rightarrow> Some Untyped
      | Some (JStr u) \<Rightarrow>
          Some (if u = [] then Returned (new_RepertoireTree initialRootFen) else Thrown TypeError)
      | Some (JObj ms) \<Rightarrow>
          Some (case getprop ms ''length'' of Some (JNum l) \<Rightarrow> Untyped | _ \<Rightarrow> Thrown TypeError)
      | Some (JArr vs) \<Rightarrow>
          (if vs = [] then Some (Returned (new_RepertoireTree initialRootFen))
           else case those (map decode_node vs) of
                  None \<Rightarrow> Some Untyped
                | Some simplifiedNodes \<Rightarrow>
                    map_option Returned (deserializeNodes simplifiedNodes initialRootFen)))"


section \<open>Notions used in the properties\<close>






text \<open>The tree a call returns, if it returns one.\<close>

definition returned :: "outcome option \<Rightarrow> RepertoireTree option" where
  "returned r = (case r of Some (Returned t) \<Rightarrow> Some t | _ \<Rightarrow> None)"





declare rebuildNodeMap.simps [code]

section \<open>The bound of the parser\<close>

text \<open>
  Every call of the parser consumes a character before the second nested call after it, so
  the bound that \<open>JSON_parse\<close> starts with is never reached: a larger bound gives the same
  result.
\<close>

lemma skip_ws_length: "length (skip_ws s) \<le> length s"
  by (simp add: skip_ws_def length_dropWhile_le)

lemma skip_ws_Cons_length: "skip_ws s = c # cs \<Longrightarrow> length cs < length s"
  using skip_ws_length [of s] by simp

lemma parse_chars_length: "parse_chars s = Some (u, r) \<Longrightarrow> length r < length s"
proof (induction s arbitrary: u r rule: length_induct)
  case (1 xs)
  have key: "length r' < length ys" if "parse_chars ys = Some (u', r')" "length ys < length xs" for ys u' r'
    using 1(1) that by blast
  show ?case
  proof (cases xs)
    case Nil
    with 1(2) show ?thesis by simp
  next
    case (Cons c cs)
    with 1(2) show ?thesis
      by (auto split: if_splits list.splits option.splits prod.splits dest!: key)
  qed
qed

lemma strip_prefix_length: "strip_prefix p s = Some r \<Longrightarrow> length r \<le> length s"
  by (induction p s rule: strip_prefix.induct) (auto split: if_splits)

lemma parse_digits_length: "parse_digits s = Some (d, r) \<Longrightarrow> length r < length s"
proof -
  assume "parse_digits s = Some (d, r)"
  then have d: "takeWhile is_digit s \<noteq> []" "r = dropWhile is_digit s" "d = takeWhile is_digit s"
    by (auto simp: parse_digits_def split: if_splits)
  have "length (takeWhile is_digit s) + length (dropWhile is_digit s) = length s"
    by (metis length_append takeWhile_dropWhile_id)
  with d show ?thesis by (cases "takeWhile is_digit s") auto
qed

lemma parse_number_length: "parse_number s = Some (l, r) \<Longrightarrow> length r < length s"
  by (auto simp: parse_number_def Let_def split: list.splits if_splits option.splits prod.splits
      dest!: parse_digits_length)

lemma parse_length:
  "(parse_value n s = Some (v, r) \<longrightarrow> length r < length s) \<and>
   (parse_elements n s = Some (vs, r') \<longrightarrow> length r' < length s) \<and>
   (parse_members n s = Some (ms, r'') \<longrightarrow> length r'' < length s)"
proof (induction n arbitrary: s v r vs r' ms r'')
  case 0
  then show ?case by simp
next
  case (Suc n)
  have iv: "length b < length a" if "parse_value n a = Some (x, b)" for a x b
    using Suc [of a x b] that by simp
  have ie: "length b < length a" if "parse_elements n a = Some (x, b)" for a x b
    using Suc [of a _ _ x b] that by simp
  have im: "length b < length a" if "parse_members n a = Some (x, b)" for a x b
    using Suc [of a _ _ _ _ x b] that by simp
  have 1: "length r < length s" if "parse_value (Suc n) s = Some (v, r)"
    using that
    by (auto split: list.splits if_splits option.splits prod.splits
        dest!: skip_ws_Cons_length parse_chars_length strip_prefix_length parse_number_length ie im)
  have 2: "length r' < length s" if "parse_elements (Suc n) s = Some (vs, r')"
    using that
    by (auto split: list.splits if_splits option.splits prod.splits
        dest!: skip_ws_Cons_length iv ie)
  have 3: "length r'' < length s" if "parse_members (Suc n) s = Some (ms, r'')"
    using that
    by (auto split: list.splits if_splits option.splits prod.splits
        dest!: skip_ws_Cons_length parse_chars_length iv im)
  from 1 2 3 show ?case by blast
qed

lemma parse_value_length: "parse_value n s = Some (v, r) \<Longrightarrow> length r < length s"
  using parse_length [of n s v r] by simp

lemma parse_fuel:
  "(2 * length s + 2 \<le> n \<and> n \<le> m \<longrightarrow> parse_value m s = parse_value n s) \<and>
   (2 * length s + 3 \<le> n \<and> n \<le> m \<longrightarrow> parse_elements m s = parse_elements n s) \<and>
   (2 * length s + 3 \<le> n \<and> n \<le> m \<longrightarrow> parse_members m s = parse_members n s)"
proof (induction m arbitrary: s n)
  case 0
  then show ?case by simp
next
  case (Suc m)
  have 1: "parse_value (Suc m) s = parse_value n s" if n: "2 * length s + 2 \<le> n" "n \<le> Suc m"
  proof (cases "n = Suc m")
    case True
    then show ?thesis by simp
  next
    case False
    with n obtain n' where n': "n = Suc n'" "n' \<le> m" "2 * length s + 1 \<le> n'"
      by (cases n) auto
    have he: "parse_elements m x = parse_elements n' x" if "2 * length x + 3 \<le> n'" for x
      using Suc [of x n'] that n'(2) by simp
    have hm: "parse_members m x = parse_members n' x" if "2 * length x + 3 \<le> n'" for x
      using Suc [of x n'] that n'(2) by simp
    show ?thesis
      unfolding n'(1) using n'(3)
      by (auto split: list.splits if_splits option.splits prod.splits
          dest!: skip_ws_Cons_length simp: he hm)
  qed
  have 2: "parse_elements (Suc m) s = parse_elements n s" if n: "2 * length s + 3 \<le> n" "n \<le> Suc m"
  proof (cases "n = Suc m")
    case True
    then show ?thesis by simp
  next
    case False
    with n obtain n' where n': "n = Suc n'" "n' \<le> m" "2 * length s + 2 \<le> n'"
      by (cases n) auto
    have hv: "parse_value m s = parse_value n' s"
      using Suc [of s n'] n'(2,3) by simp
    have he: "parse_elements m x = parse_elements n' x" if "2 * length x + 3 \<le> n'" for x
      using Suc [of x n'] that n'(2) by simp
    show ?thesis
      unfolding n'(1) using n'(3)
      by (auto split: list.splits if_splits option.splits prod.splits
          dest!: skip_ws_Cons_length parse_value_length simp: hv he)
  qed
  have 3: "parse_members (Suc m) s = parse_members n s" if n: "2 * length s + 3 \<le> n" "n \<le> Suc m"
  proof (cases "n = Suc m")
    case True
    then show ?thesis by simp
  next
    case False
    with n obtain n' where n': "n = Suc n'" "n' \<le> m" "2 * length s + 2 \<le> n'"
      by (cases n) auto
    have hv: "parse_value m x = parse_value n' x" if "2 * length x + 2 \<le> n'" for x
      using Suc [of x n'] that n'(2) by simp
    have hm: "parse_members m x = parse_members n' x" if "2 * length x + 3 \<le> n'" for x
      using Suc [of x n'] that n'(2) by simp
    show ?thesis
      unfolding n'(1)
    proof (cases "skip_ws s")
      case Nil
      then show "parse_members (Suc m) s = parse_members (Suc n') s" by simp
    next
      case s1: (Cons q cs)
      note l1 = skip_ws_Cons_length [OF s1]
      show "parse_members (Suc m) s = parse_members (Suc n') s"
      proof (cases "parse_chars cs")
        case None
        with s1 show ?thesis by simp
      next
        case (Some kr)
        then obtain k r where s2: "parse_chars cs = Some (k, r)" by (cases kr) simp
        note l2 = parse_chars_length [OF s2]
        show ?thesis
        proof (cases "skip_ws r")
          case Nil
          with s1 s2 show ?thesis by simp
        next
          case s3: (Cons c r1)
          note l3 = skip_ws_Cons_length [OF s3]
          from l1 l2 l3 n'(3) have "2 * length r1 + 2 \<le> n'" by simp
          note v = hv [OF this]
          show ?thesis
          proof (cases "parse_value n' r1")
            case None
            with s1 s2 s3 v show ?thesis by simp
          next
            case (Some vr)
            then obtain w r2 where s4: "parse_value n' r1 = Some (w, r2)" by (cases vr) simp
            note l4 = parse_value_length [OF s4]
            show ?thesis
            proof (cases "skip_ws r2")
              case Nil
              with s1 s2 s3 s4 v show ?thesis by simp
            next
              case s5: (Cons e r3)
              note l5 = skip_ws_Cons_length [OF s5]
              from l1 l2 l3 l4 l5 n'(3) have "2 * length r3 + 3 \<le> n'" by simp
              note ms = hm [OF this]
              from s1 s2 s3 s4 s5 v ms show ?thesis by simp
            qed
          qed
        qed
      qed
    qed
  qed
  from 1 2 3 show ?case by blast
qed

lemma JSON_parse_fuel:
  "2 * length s + 2 \<le> n \<Longrightarrow>
   JSON_parse s = (case parse_value n s of
                     None \<Rightarrow> None
                   | Some (v, r) \<Rightarrow> if skip_ws r = [] then Some v else None)"
  using parse_fuel [of s "2 * length s + 2" n] by (simp add: JSON_parse_def)

section \<open>Properties of insertion and lookup\<close>

subsection \<open>Auxiliary facts\<close>

lemma wf_new: "wf_tree (new_RepertoireTree k)"
  by (simp add: wf_tree_def new_RepertoireTree_def new_RepertoireNode_def)

lemma wf_children: "wf_tree t \<Longrightarrow> n < length (heap t) \<Longrightarrow> c \<in> set (children (heap t ! n)) \<Longrightarrow> c < length (heap t)"
  by (auto simp: wf_tree_def list_all_length in_set_conv_nth)

lemma wf_nodeMap: "wf_tree t \<Longrightarrow> nodeMap t k = Some n \<Longrightarrow> n < length (heap t)"
  by (auto simp: wf_tree_def)

lemma find_cong_set: "(\<And>x. x \<in> set xs \<Longrightarrow> P x = Q x) \<Longrightarrow> find P xs = find Q xs"
  by (induction xs) auto

lemma find_append: "find P (xs @ ys) = (case find P xs of None \<Rightarrow> find P ys | Some x \<Rightarrow> Some x)"
  by (induction xs) auto

lemma find_Some_set: "find P xs = Some x \<Longrightarrow> x \<in> set xs \<and> P x"
  by (induction xs) (auto split: if_splits)

lemma find_None_iff': "find P xs = None \<longleftrightarrow> (\<forall>x\<in>set xs. \<not> P x)"
  by (induction xs) auto

lemma walk_append: "walk h n (ms @ ms') = (case walk h n ms of None \<Rightarrow> None | Some n' \<Rightarrow> walk h n' ms')"
  by (induction ms arbitrary: n) (auto split: option.splits)

lemma childless_no_child: "children (h ! n) = [] \<Longrightarrow> findChildByMove h n m = None"
  by (simp add: findChildByMove_def)

lemma grown_nth_old:
  assumes "n < length h" "n \<noteq> p"
  shows "addChild (h @ [nd]) p (length h) ! n = h ! n"
  using assms by (simp add: addChild_def nth_append)

lemma grown_nth_parent:
  assumes "p < length h"
  shows "addChild (h @ [nd]) p (length h) ! p = (h ! p)\<lparr>children := children (h ! p) @ [length h]\<rparr>"
  using assms by (simp add: addChild_def nth_append)

lemma grown_nth_new:
  assumes "p < length h"
  shows "addChild (h @ [nd]) p (length h) ! length h = nd"
  using assms by (simp add: addChild_def nth_append)

lemma grown_length: "length (addChild (h @ [nd]) p c) = Suc (length h)"
  by (simp add: addChild_def)

lemma grown_move:
  assumes "p < length h" "n < length h"
  shows "move (addChild (h @ [nd]) p (length h) ! n) = move (h ! n)"
    and "fen (addChild (h @ [nd]) p (length h) ! n) = fen (h ! n)"
  using assms by (cases "n = p"; simp add: grown_nth_old grown_nth_parent)+

lemma grown_findChild:
  assumes wf: "wf_tree t" and p: "p < length (heap t)" and n: "n < length (heap t)"
    and f: "findChildByMove (heap t) n m = Some c"
  shows "findChildByMove (addChild (heap t @ [nd]) p (length (heap t))) n m = Some c"
proof -
  let ?h = "heap t" and ?h' = "addChild (heap t @ [nd]) p (length (heap t))"
  have same: "find (\<lambda>child. move (?h' ! child) = m) (children (?h ! n))
              = find (\<lambda>child. move (?h ! child) = m) (children (?h ! n))"
    by (rule find_cong_set) (use wf p n in \<open>simp add: grown_move wf_children\<close>)
  show ?thesis
  proof (cases "n = p")
    case True
    with p f same show ?thesis
      by (simp add: findChildByMove_def grown_nth_parent find_append)
  next
    case False
    with n f same show ?thesis
      by (simp add: findChildByMove_def grown_nth_old)
  qed
qed


lemma findChild_wf: "wf_tree t \<Longrightarrow> n < length (heap t) \<Longrightarrow> findChildByMove (heap t) n m = Some c \<Longrightarrow> c < length (heap t)"
  by (auto simp: findChildByMove_def dest!: find_Some_set intro: wf_children)

lemma grown_walk:
  assumes wf: "wf_tree t" and p: "p < length (heap t)"
  shows "n < length (heap t) \<Longrightarrow> walk (heap t) n ms = Some r \<Longrightarrow>
         walk (addChild (heap t @ [nd]) p (length (heap t))) n ms = Some r"
proof (induction ms arbitrary: n)
  case Nil
  then show ?case by simp
next
  case (Cons m ms)
  from Cons.prems obtain c where c: "findChildByMove (heap t) n m = Some c"
    and r: "walk (heap t) c ms = Some r"
    by (auto split: option.splits)
  from wf Cons.prems(1) c have "c < length (heap t)" by (rule findChild_wf)
  with Cons.IH r have "walk (addChild (heap t @ [nd]) p (length (heap t))) c ms = Some r" by blast
  with grown_findChild [OF wf p Cons.prems(1) c] show ?case by simp
qed

lemma walk_wf: "wf_tree t \<Longrightarrow> n < length (heap t) \<Longrightarrow> walk (heap t) n ms = Some r \<Longrightarrow> r < length (heap t)"
proof (induction ms arbitrary: n)
  case Nil
  then show ?case by simp
next
  case (Cons m ms)
  then show ?case by (auto split: option.splits dest: findChild_wf)
qed

lemma addMove_creates:
  assumes "nodeMap t parentFen = Some p" "findChildByMove (heap t) p mv = None"
  shows "fst (addMove t parentFen newFen mv) = Some (length (heap t))"
    and "heap (snd (snd (addMove t parentFen newFen mv)))
         = addChild (heap t @ [new_RepertoireNode newFen mv (Some p)]) p (length (heap t))"
    and "nodeMap (snd (snd (addMove t parentFen newFen mv))) = (nodeMap t)(newFen \<mapsto> length (heap t))"
    and "root (snd (snd (addMove t parentFen newFen mv))) = root t"
  using assms by (simp_all add: addMove_def Let_def)

lemma addMove_existing:
  assumes "nodeMap t parentFen = Some p" "findChildByMove (heap t) p mv = Some c"
  shows "addMove t parentFen newFen mv =
           (Some c,
            (if fen (heap t ! c) \<noteq> newFen
             then [console_warn (''Move '' @ mv @ '' from '' @ parentFen
                     @ '' already exists but leads to '' @ fen (heap t ! c)
                     @ '', not '' @ newFen @ ''. Using existing node.'')]
             else []), t)"
  using assms by (simp add: addMove_def)


lemma wf_addMove:
  assumes wf: "wf_tree t"
  shows "wf_tree (snd (snd (addMove t parentFen newFen mv)))"
proof (cases "nodeMap t parentFen")
  case None
  with wf show ?thesis by (simp add: addMove_def)
next
  case (Some p)
  from wf Some have p: "p < length (heap t)" by (rule wf_nodeMap)
  show ?thesis
  proof (cases "findChildByMove (heap t) p mv")
    case (Some c)
    with \<open>nodeMap t parentFen = Some p\<close> wf show ?thesis by (simp add: addMove_existing)
  next
    case None
    let ?t1 = "snd (snd (addMove t parentFen newFen mv))"
    let ?N = "length (heap t)"
    note cr = addMove_creates [OF \<open>nodeMap t parentFen = Some p\<close> None, of newFen]
    have len: "length (heap ?t1) = Suc ?N" by (simp add: cr(2) grown_length)
    have ch: "c < Suc ?N" if "n < Suc ?N" "c \<in> set (children (heap ?t1 ! n))" for n c
    proof (cases "n = ?N")
      case True
      with that p show ?thesis by (simp add: cr(2) grown_nth_new new_RepertoireNode_def)
    next
      case False
      with that have n: "n < ?N" by simp
      show ?thesis
      proof (cases "n = p")
        case True
        with that p wf_children [OF wf p] show ?thesis
          by (auto simp: cr(2) grown_nth_parent less_Suc_eq)
      next
        case False
        with that n wf_children [OF wf n] show ?thesis
          by (auto simp: cr(2) grown_nth_old less_Suc_eq)
      qed
    qed
    have "root ?t1 < length (heap ?t1)"
      using wf by (simp add: cr(4) len wf_tree_def)
    moreover have "\<forall>k n. nodeMap ?t1 k = Some n \<longrightarrow> n < length (heap ?t1)"
      using wf by (auto simp: cr(3) len wf_tree_def less_Suc_eq)
    moreover have "list_all (\<lambda>nd. list_all (\<lambda>c. c < length (heap ?t1)) (children nd)) (heap ?t1)"
      unfolding list_all_length len using ch by (auto simp: len in_set_conv_nth)
    ultimately show ?thesis unfolding wf_tree_def by blast
  qed
qed

lemma wf_addMoves: "wf_tree t \<Longrightarrow> wf_tree (addMoves t calls)"
  by (induction t calls rule: addMoves.induct) (simp_all add: wf_addMove)

lemma siblings_unique_addMove:
  assumes wf: "wf_tree t" and su: "siblings_unique (heap t)"
  shows "siblings_unique (heap (snd (snd (addMove t parentFen newFen mv))))"
proof (cases "nodeMap t parentFen")
  case None
  with su show ?thesis by (simp add: addMove_def)
next
  case (Some p)
  from wf Some have p: "p < length (heap t)" by (rule wf_nodeMap)
  show ?thesis
  proof (cases "findChildByMove (heap t) p mv")
    case (Some c)
    with \<open>nodeMap t parentFen = Some p\<close> su show ?thesis by (simp add: addMove_existing)
  next
    case None
    let ?t1 = "snd (snd (addMove t parentFen newFen mv))"
    let ?N = "length (heap t)"
    let ?h = "heap t" and ?h1 = "heap ?t1"
    note cr = addMove_creates [OF \<open>nodeMap t parentFen = Some p\<close> None, of newFen]
    have len: "length ?h1 = Suc ?N" by (simp add: cr(2) grown_length)
    have old: "distinct (map (\<lambda>c. move (?h ! c)) (children (?h ! n)))" if "n < ?N" for n
      using su that by (simp add: siblings_unique_def list_all_length)
    have mv_same: "map (\<lambda>c. move (?h1 ! c)) (children (?h ! n)) = map (\<lambda>c. move (?h ! c)) (children (?h ! n))"
      if "n < ?N" for n
      using wf_children [OF wf that] p by (simp add: cr(2) grown_move)
    have fresh: "mv \<notin> set (map (\<lambda>c. move (?h ! c)) (children (?h ! p)))"
      using None by (auto simp: findChildByMove_def find_None_iff')
    have "distinct (map (\<lambda>c. move (?h1 ! c)) (children (?h1 ! n)))" if "n < Suc ?N" for n
    proof (cases "n = ?N")
      case True
      with p show ?thesis by (simp add: cr(2) grown_nth_new new_RepertoireNode_def)
    next
      case False
      with that have n: "n < ?N" by simp
      show ?thesis
      proof (cases "n = p")
        case True
        have "children (?h1 ! p) = children (?h ! p) @ [?N]"
          using p by (simp add: cr(2) grown_nth_parent)
        moreover have "move (?h1 ! ?N) = mv"
          using p by (simp add: cr(2) grown_nth_new new_RepertoireNode_def)
        ultimately have "map (\<lambda>c. move (?h1 ! c)) (children (?h1 ! p))
            = map (\<lambda>c. move (?h ! c)) (children (?h ! p)) @ [mv]"
          by (simp add: mv_same [OF p])
        with True old [OF p] fresh show ?thesis by simp
      next
        case False
        then have "children (?h1 ! n) = children (?h ! n)"
          using n by (simp add: cr(2) grown_nth_old)
        with old [OF n] show ?thesis by (simp add: mv_same [OF n])
      qed
    qed
    then show ?thesis by (simp add: siblings_unique_def list_all_length len)
  qed
qed

lemma siblings_unique_addMoves:
  "wf_tree t \<Longrightarrow> siblings_unique (heap t) \<Longrightarrow> siblings_unique (heap (addMoves t calls))"
  by (induction t calls rule: addMoves.induct) (simp_all add: wf_addMove siblings_unique_addMove)

text \<open>
  \<^bold>\<open>C8\<close>. When \<open>parentFen\<close> is not a key of \<open>nodeMap\<close>, \<open>addMove\<close> returns \<open>null\<close>
  and the tree after the call is the tree before it: no node is created and neither the
  heap nor the index changes.
\<close>

theorem addMove_unknown_parent:
  "nodeMap t parentFen = None \<Longrightarrow>
     fst (addMove t parentFen newFen mv) = None \<and> snd (snd (addMove t parentFen newFen mv)) = t"
  by (simp add: addMove_def)

theorem addMove_unknown_parent_witness:
  "nodeMap (new_RepertoireTree ''K0'') ''K7'' = None \<and>
   fst (addMove (new_RepertoireTree ''K0'') ''K7'' ''K1'' ''e4'') = None \<and>
   snd (snd (addMove (new_RepertoireTree ''K0'') ''K7'' ''K1'' ''e4'')) = new_RepertoireTree ''K0''"
proof -
  have h: "nodeMap (new_RepertoireTree ''K0'') ''K7'' = None"
    by (simp add: new_RepertoireTree_def)
  show ?thesis
    using h addMove_unknown_parent [OF h, of "''K1''" "''e4''"] by simp
qed

text \<open>
  \<^bold>\<open>C9\<close>. \<open>findNodeByMoves([])\<close> is the root. A sequence extended by one move resolves
  to what \<open>findChildByMove\<close> gives on the node the sequence resolves to; once a prefix does
  not resolve, no extension does; and a sequence that ends on a node without children does not
  resolve when it is one move longer.
\<close>

theorem findNodeByMoves_walks:
  "findNodeByMoves t [] = Some (root t) \<and>
   findNodeByMoves t (ms @ [m]) =
     (case findNodeByMoves t ms of
        None \<Rightarrow> None
      | Some n \<Rightarrow> findChildByMove (heap t) n m) \<and>
   (findNodeByMoves t ms = None \<longrightarrow> findNodeByMoves t (ms @ ms') = None) \<and>
   (findNodeByMoves t ms = Some n \<and> children (heap t ! n) = [] \<longrightarrow>
      findNodeByMoves t (ms @ [m]) = None)"
  by (auto simp: findNodeByMoves_def walk_append childless_no_child split: option.splits)

theorem findNodeByMoves_walks_witness:
  "findNodeByMoves (addMoves (new_RepertoireTree ''K0'') [(''K0'', ''K1'', ''e4'')]) [''d4''] = None \<and>
   findNodeByMoves (addMoves (new_RepertoireTree ''K0'') [(''K0'', ''K1'', ''e4'')]) ([''d4''] @ [''d5'']) = None \<and>
   findNodeByMoves (addMoves (new_RepertoireTree ''K0'') [(''K0'', ''K1'', ''e4'')]) [''e4''] = Some 1 \<and>
   children (heap (addMoves (new_RepertoireTree ''K0'') [(''K0'', ''K1'', ''e4'')]) ! 1) = [] \<and>
   findNodeByMoves (addMoves (new_RepertoireTree ''K0'') [(''K0'', ''K1'', ''e4'')]) ([''e4''] @ [''c5'']) = None"
proof -
  let ?t = "addMoves (new_RepertoireTree ''K0'') [(''K0'', ''K1'', ''e4'')]"
  have a: "findNodeByMoves ?t [''d4''] = None"
    by (simp add: findNodeByMoves_def addMove_def new_RepertoireTree_def new_RepertoireNode_def
        findChildByMove_def addChild_def)
  have b: "findNodeByMoves ?t [''e4''] = Some 1"
    by (simp add: findNodeByMoves_def addMove_def new_RepertoireTree_def new_RepertoireNode_def
        findChildByMove_def addChild_def)
  have c: "children (heap ?t ! 1) = []"
    by (simp add: addMove_def new_RepertoireTree_def new_RepertoireNode_def
        findChildByMove_def addChild_def)
  from findNodeByMoves_walks [of ?t "[''d4'']" "''x''" "[''d5'']" 0] a
  have d: "findNodeByMoves ?t ([''d4''] @ [''d5'']) = None" by blast
  from findNodeByMoves_walks [of ?t "[''e4'']" "''c5''" "[]" 1] b c
  have e: "findNodeByMoves ?t ([''e4''] @ [''c5'']) = None" by blast
  from a b c d e show ?thesis by blast
qed

text \<open>
  \<^bold>\<open>C10\<close>. The index entry of the root's FEN is not protected. When the parent is in the
  index and has no child for the move, \<open>addMove\<close> with the root's FEN as \<open>newFen\<close> creates a
  node under the parent and maps the root's FEN to it: afterwards \<open>findNodeByFen\<close> of the root's
  FEN is the new node and not the root, while \<open>findNodeByMoves([])\<close> is still the root.
\<close>

theorem addMove_root_key_repoints:
  assumes "wf_tree t" and "nodeMap t parentFen = Some p"
    and "findChildByMove (heap t) p mv = None"
    and "newFen = fen (heap t ! root t)"
    and "addMove t parentFen newFen mv = (r, out, t')"
  shows "r = Some (length (heap t)) \<and> length (heap t') = Suc (length (heap t)) \<and>
         heap t' ! length (heap t) = new_RepertoireNode newFen mv (Some p) \<and>
         children (heap t' ! p) = children (heap t ! p) @ [length (heap t)] \<and>
         findNodeByFen t' (fen (heap t ! root t)) = r \<and>
         r \<noteq> Some (root t) \<and>
         findNodeByMoves t' [] = Some (root t) \<and>
         fen (heap t' ! root t) = fen (heap t ! root t)"
proof -
  from assms(1,2) have p: "p < length (heap t)" by (rule wf_nodeMap)
  from assms(1) have rt: "root t < length (heap t)" by (simp add: wf_tree_def)
  from addMove_creates [OF assms(2,3), of newFen] assms(5)
  have r: "r = Some (length (heap t))"
    and h: "heap t' = addChild (heap t @ [new_RepertoireNode newFen mv (Some p)]) p (length (heap t))"
    and m: "nodeMap t' = (nodeMap t)(newFen \<mapsto> length (heap t))"
    and ro: "root t' = root t"
    by simp_all
  from r m rt ro p show ?thesis
    by (simp add: findNodeByFen_def findNodeByMoves_def assms(4) h grown_length grown_nth_new
        grown_nth_parent grown_move)
qed

theorem addMove_root_key_repoints_witness:
  "findNodeByFen (snd (snd (addMove (new_RepertoireTree ''K0'') ''K0'' ''K0'' ''e4''))) ''K0'' = Some 1 \<and>
   findNodeByMoves (snd (snd (addMove (new_RepertoireTree ''K0'') ''K0'' ''K0'' ''e4''))) [] = Some 0"
proof -
  let ?t = "new_RepertoireTree ''K0''"
  obtain r out t' where a: "addMove ?t ''K0'' ''K0'' ''e4'' = (r, out, t')"
    by (cases "addMove ?t ''K0'' ''K0'' ''e4''") auto
  have "nodeMap ?t ''K0'' = Some 0" "findChildByMove (heap ?t) 0 ''e4'' = None"
    "''K0'' = fen (heap ?t ! root ?t)"
    by (simp_all add: new_RepertoireTree_def new_RepertoireNode_def findChildByMove_def)
  from addMove_root_key_repoints [OF wf_new this a] a show ?thesis
    by (simp add: new_RepertoireTree_def new_RepertoireNode_def)
qed




text \<open>
  \<^bold>\<open>C5\<close>. A transposition: \<open>newFen\<close> is in the index at a node with another parent, and
  the parent has no child for the move. \<open>addMove\<close> creates a node, appends it to the parent's
  children and re-points the index, so \<open>findNodeByFen(newFen)\<close> is the new node and not the
  earlier one; every move sequence that resolved to a node with that FEN before the call
  resolves to the same node, with the same FEN, after it.
\<close>

theorem addMove_transposition:
  assumes "wf_tree t" and "nodeMap t parentFen = Some p"
    and "findChildByMove (heap t) p mv = None"
    and "nodeMap t newFen = Some old" and "parent (heap t ! old) \<noteq> Some p"
    and "addMove t parentFen newFen mv = (r, out, t')"
  shows "r = Some (length (heap t)) \<and>
         heap t' ! length (heap t) = new_RepertoireNode newFen mv (Some p) \<and>
         children (heap t' ! p) = children (heap t ! p) @ [length (heap t)] \<and>
         findNodeByFen t' newFen = r \<and> r \<noteq> Some old \<and>
         (\<forall>ms n. findNodeByMoves t ms = Some n \<and> fen (heap t ! n) = newFen \<longrightarrow>
            findNodeByMoves t' ms = Some n \<and> fen (heap t' ! n) = newFen)"
proof -
  from assms(1,2) have p: "p < length (heap t)" by (rule wf_nodeMap)
  from assms(1,4) have old: "old < length (heap t)" by (rule wf_nodeMap)
  from assms(1) have rt: "root t < length (heap t)" by (simp add: wf_tree_def)
  from addMove_creates [OF assms(2,3), of newFen] assms(6)
  have r: "r = Some (length (heap t))"
    and h: "heap t' = addChild (heap t @ [new_RepertoireNode newFen mv (Some p)]) p (length (heap t))"
    and m: "nodeMap t' = (nodeMap t)(newFen \<mapsto> length (heap t))"
    and ro: "root t' = root t"
    by simp_all
  have paths: "findNodeByMoves t' ms = Some n \<and> fen (heap t' ! n) = newFen"
    if "findNodeByMoves t ms = Some n" "fen (heap t ! n) = newFen" for ms n
  proof -
    from that(1) have w: "walk (heap t) (root t) ms = Some n" by (simp add: findNodeByMoves_def)
    from walk_wf [OF assms(1) rt w] have "n < length (heap t)" .
    with grown_walk [OF assms(1) p rt w] that(2) p show ?thesis
      by (simp add: findNodeByMoves_def h ro grown_move)
  qed
  have "heap t' ! length (heap t) = new_RepertoireNode newFen mv (Some p)"
    "children (heap t' ! p) = children (heap t ! p) @ [length (heap t)]"
    using p by (simp_all add: h grown_nth_new grown_nth_parent)
  moreover have "findNodeByFen t' newFen = r" "r \<noteq> Some old"
    using r m old by (simp_all add: findNodeByFen_def)
  ultimately show ?thesis using r paths by blast
qed

theorem addMove_transposition_witness:
  "findNodeByFen
     (snd (snd (addMove
        (addMoves (new_RepertoireTree ''K0'')
           [(''K0'', ''K1'', ''e4''), (''K1'', ''K9'', ''c5''), (''K0'', ''K2'', ''d4'')])
        ''K2'' ''K9'' ''e5''))) ''K9'' = Some 4 \<and>
   findNodeByMoves
     (snd (snd (addMove
        (addMoves (new_RepertoireTree ''K0'')
           [(''K0'', ''K1'', ''e4''), (''K1'', ''K9'', ''c5''), (''K0'', ''K2'', ''d4'')])
        ''K2'' ''K9'' ''e5''))) [''e4'', ''c5''] = Some 2 \<and>
   fen (heap
     (snd (snd (addMove
        (addMoves (new_RepertoireTree ''K0'')
           [(''K0'', ''K1'', ''e4''), (''K1'', ''K9'', ''c5''), (''K0'', ''K2'', ''d4'')])
        ''K2'' ''K9'' ''e5''))) ! 2) = ''K9''"
proof -
  let ?t = "addMoves (new_RepertoireTree ''K0'')
           [(''K0'', ''K1'', ''e4''), (''K1'', ''K9'', ''c5''), (''K0'', ''K2'', ''d4'')]"
  obtain r out t' where a: "addMove ?t ''K2'' ''K9'' ''e5'' = (r, out, t')"
    by (cases "addMove ?t ''K2'' ''K9'' ''e5''") auto
  have wf: "wf_tree ?t" by (rule wf_addMoves [OF wf_new])
  have h: "nodeMap ?t ''K2'' = Some 3" "findChildByMove (heap ?t) 3 ''e5'' = None"
    "nodeMap ?t ''K9'' = Some 2" "parent (heap ?t ! 2) \<noteq> Some 3"
    by (simp_all add: addMove_def new_RepertoireTree_def new_RepertoireNode_def
        findChildByMove_def addChild_def)
  have e: "findNodeByMoves ?t [''e4'', ''c5''] = Some 2" "fen (heap ?t ! 2) = ''K9''" "length (heap ?t) = 4"
    by (simp_all add: findNodeByMoves_def addMove_def new_RepertoireTree_def new_RepertoireNode_def
        findChildByMove_def addChild_def)
  from addMove_transposition [OF wf h a] e a show ?thesis by simp
qed

section \<open>Properties of deserialize\<close>

subsection \<open>The pass that creates the nodes\<close>








subsection \<open>What deserialize throws\<close>






subsection \<open>Sibling uniqueness\<close>

text \<open>Insertion keeps the moves of the children of every node distinct.\<close>

lemma addMoves_siblings_unique:
  "siblings_unique (heap (addMoves (new_RepertoireTree rootFen) calls))"
  by (rule siblings_unique_addMoves [OF wf_new])
     (simp add: siblings_unique_def new_RepertoireTree_def new_RepertoireNode_def)

text \<open>
  \<^bold>\<open>C6\<close>. That no node has two children with the same move holds after every sequence
  of \<open>addMove\<close> calls on a new tree (the lemma above), and \<open>deserialize\<close> breaks it. The tree
  below is built by four calls of \<open>addMove\<close> and satisfies the invariant; K1 is reached by e4
  and by d4, and each of the two nodes has a child by the move c. In the tree that
  \<open>deserialize\<close> makes of the output of \<open>serialize\<close> the single node of K1 has both of these
  children.
\<close>

theorem deserialize_breaks_siblings_unique:
  "siblings_unique (heap (addMoves (new_RepertoireTree ''K0'')
        [(''K0'', ''K1'', ''e4''), (''K1'', ''K2'', ''c''), (''K0'', ''K1'', ''d4''), (''K1'', ''K3'', ''c'')])) \<and>
   map_option (siblings_unique \<circ> heap)
     (returned (deserialize (serialize (addMoves (new_RepertoireTree ''K0'')
        [(''K0'', ''K1'', ''e4''), (''K1'', ''K2'', ''c''), (''K0'', ''K1'', ''d4''), (''K1'', ''K3'', ''c'')])) ''K0''))
   = Some False"
  by code_simp

section \<open>Properties of serialize\<close>

subsection \<open>The key of visitedFens\<close>








subsection \<open>serialize on a heap built by addMove\<close>









section \<open>JSON.parse reads what JSON.stringify writes\<close>






lemma skip_ws_quote [simp]: "skip_ws (CHR 0x22 # r) = CHR 0x22 # r"
  by (simp add: skip_ws_def is_ws_def)


lemma skip_ws_plain [simp]:
  "skip_ws (CHR ''n'' # r) = CHR ''n'' # r" "skip_ws (CHR ''['' # r) = CHR ''['' # r"
  "skip_ws (CHR '']'' # r) = CHR '']'' # r" "skip_ws (CHR ''{'' # r) = CHR ''{'' # r"
  "skip_ws (CHR ''}'' # r) = CHR ''}'' # r" "skip_ws (CHR '','' # r) = CHR '','' # r"
  "skip_ws (CHR '':'' # r) = CHR '':'' # r"
  by (simp_all add: skip_ws_def is_ws_def)









lemma stringify_node_head: "stringify_node d @ r = CHR ''{'' # tl (stringify_node d @ r)"
  by (simp add: stringify_node_def)











section \<open>The heaps that addMove builds\<close>







subsection \<open>deserialize on the records of a heap built by addMove\<close>



lemma nodeData_sel [simp]:
  "fenD (nodeData h n) = fen (h ! n)" "moveD (nodeData h n) = move (h ! n)"
  "commentD (nodeData h n) = comment (h ! n)" "labelsD (nodeData h n) = labels (h ! n)"
  "parentFenD (nodeData h n) = map_option (\<lambda>p. fen (h ! p)) (parent (h ! n))"
  by (simp_all add: nodeData_def split: option.splits)












section \<open>The round trip\<close>





end
